theory Spec2Isabelle
  imports Complex_Main
begin

section \<open>Data model\<close>

text \<open>
  The program \<^verbatim>\<open>demo.cpp\<close> is one \<^verbatim>\<open>main\<close> and two helpers. Its vectors are
  \<^verbatim>\<open>std::vector<double>\<close>; they are modelled as lists of reals (rounding is outside the model).
\<close>

type_synonym vec = "real list"

text \<open>
  A ciphertext handle is modelled by its provenance: the library call that returned it and
  the operands of that call. \<open>Encrypt v\<close> stands for
  \<^verbatim>\<open>cc->Encrypt(jointPublicKey, cc->MakeCKKSPackedPlaintext(v))\<close>.
\<close>

datatype ciphertext =
    Encrypt vec
  | EvalMult ciphertext ciphertext
  | EvalSum ciphertext nat
  | EvalAdd ciphertext ciphertext
  | EvalSub ciphertext ciphertext

text \<open>
  What a run does to the outside, in program order: the calls into the library and the one
  console line printed per tournament round. \<open>Op c\<close> is a call that returns the
  ciphertext \<open>c\<close> (an encryption or a homomorphic operation), \<open>Decrypt c\<close> is
  \<^verbatim>\<open>cc->Decrypt(kp0.secretKey, c, &decrypted)\<close>, \<open>Round n\<close> is the line
  \<^verbatim>\<open>tournament round, remaining = n\<close>. \<open>GenCryptoContext\<close> carries the depth, the
  scaling bits and the batch size set on the parameters. The four \<^verbatim>\<open>Enable\<close> calls and
  the other console lines are not recorded.
\<close>

datatype event =
    GenCryptoContext nat nat nat
  | KeyGen
  | EvalMultKeyGen
  | EvalAtIndexKeyGen "nat list"
  | Op ciphertext
  | Decrypt ciphertext
  | Round nat

text \<open>
  Modelled from the spec: the homomorphic library (OpenFHE) is an external collaborator and
  not part of the repository. Its contract is taken noise-free: encryption followed by
  decryption is the identity on the packed slots, \<open>EvalAdd\<close>, \<open>EvalSub\<close> and
  \<open>EvalMult\<close> act slot by slot, and \<open>EvalSum c n\<close> puts into slot \<open>j\<close> the sum of the
  \<open>n\<close> slots that start at \<open>j\<close> (cyclically), so slot 0 holds the sum of the first \<open>n\<close>
  slots.
\<close>

fun plain :: "ciphertext \<Rightarrow> vec" where
  "plain (Encrypt v) = v"
| "plain (EvalMult a b) = map2 (*) (plain a) (plain b)"
| "plain (EvalSum c n) = map (\<lambda>j. sum_list (take n (rotate j (plain c)))) [0..<length (plain c)]"
| "plain (EvalAdd a b) = map2 (+) (plain a) (plain b)"
| "plain (EvalSub a b) = map2 (-) (plain a) (plain b)"

text \<open>
  The constants at the head of \<^verbatim>\<open>main\<close>, as a record, so that statements can range over
  configurations; \<open>demo_params\<close> are the values in the source.
\<close>

record params =
  DB_N :: nat
  DIM :: nat
  MULT_DEPTH :: nat
  SCALE_BITS :: nat
  SIMILARITY_THRESHOLD :: real
  NUM_PARTIES :: nat
  THRESHOLD_PARTIES :: nat

definition BATCH_SIZE :: "params \<Rightarrow> nat" where
  "BATCH_SIZE p = DIM p"

definition demo_params :: params where
  "demo_params = \<lparr>DB_N = 100, DIM = 64, MULT_DEPTH = 10, SCALE_BITS = 40,
     SIMILARITY_THRESHOLD = 1 / 2, NUM_PARTIES = 1, THRESHOLD_PARTIES = 1\<rparr>"

section \<open>Helper math\<close>

text \<open>
  The generator \<^verbatim>\<open>std::mt19937\<close> with \<^verbatim>\<open>std::normal_distribution\<close> is a stream of
  draws and a position in it; \<open>random_vector\<close> takes the next \<open>dimension\<close> draws.
\<close>

type_synonym rng = "(nat \<Rightarrow> real) \<times> nat"

definition random_vector :: "nat \<Rightarrow> rng \<Rightarrow> vec \<times> rng" where
  "random_vector dimension g = (case g of (src, pos) \<Rightarrow> (map src [pos..<pos + dimension], (src, pos + dimension)))"

definition normalize_inplace :: "vec \<Rightarrow> vec" where
  "normalize_inplace v =
     (let s = sqrt (foldl (\<lambda>s x. s + x * x) 0 v)
      in if s = 0 then v else map (\<lambda>x. x / s) v)"

section \<open>The pipeline of main\<close>

text \<open>The first loop of \<^verbatim>\<open>main\<close>: draw and normalise \<open>n\<close> database vectors.\<close>

fun gen_db :: "nat \<Rightarrow> nat \<Rightarrow> rng \<Rightarrow> vec list \<times> rng" where
  "gen_db 0 dimension g = ([], g)"
| "gen_db (Suc n) dimension g =
     (case random_vector dimension g of (v, g') \<Rightarrow>
        (case gen_db n dimension g' of (vs, g'') \<Rightarrow> (normalize_inplace v # vs, g'')))"

text \<open>The plaintext baseline: the inner loop is the dot product, the outer one the running maximum
  from \<open>-2\<close> with its index.\<close>

definition dot_product :: "nat \<Rightarrow> vec \<Rightarrow> vec \<Rightarrow> real" where
  "dot_product dimension q v = foldl (\<lambda>s k. s + q ! k * v ! k) 0 [0..<dimension]"

definition baseline :: "nat \<Rightarrow> nat \<Rightarrow> vec \<Rightarrow> vec list \<Rightarrow> real \<times> nat" where
  "baseline n dimension query db =
     foldl (\<lambda>(plain_max, plain_argmax) i.
              let s = dot_product dimension query (db ! i)
              in if s > plain_max then (s, i) else (plain_max, plain_argmax))
           (- 2, 0) [0..<n]"

text \<open>The body of the similarity loop and the loop itself; each returns the events it caused.\<close>

definition similarity :: "nat \<Rightarrow> ciphertext \<Rightarrow> ciphertext \<Rightarrow> ciphertext \<times> event list" where
  "similarity batch enc_query c =
     (let prod = EvalMult enc_query c;
          dot = EvalSum prod batch
      in (dot, [Op prod, Op dot]))"

fun similarities :: "nat \<Rightarrow> ciphertext \<Rightarrow> ciphertext list \<Rightarrow> ciphertext list \<times> event list" where
  "similarities batch enc_query [] = ([], [])"
| "similarities batch enc_query (c # cs) =
     (case similarity batch enc_query c of (d, e) \<Rightarrow>
        (case similarities batch enc_query cs of (ds, es) \<Rightarrow> (d # ds, e @ es)))"

text \<open>The lambda \<^verbatim>\<open>pairwise_max\<close>: it computes the sum and the difference and returns the sum.\<close>

definition pairwise_max :: "ciphertext \<Rightarrow> ciphertext \<Rightarrow> ciphertext \<times> event list" where
  "pairwise_max A B =
     (let sum = EvalAdd A B;
          diff = EvalSub A B
      in (sum, [Op sum, Op diff]))"

text \<open>The inner \<^verbatim>\<open>for\<close> loop of a round, by index as in the source.\<close>

function pair_loop ::
  "ciphertext list \<Rightarrow> nat \<Rightarrow> ciphertext list \<times> event list \<Rightarrow> ciphertext list \<times> event list" where
  "pair_loop working i acc =
     (if i + 1 < length working
      then pair_loop working (i + 2)
             (fst acc @ [fst (pairwise_max (working ! i) (working ! (i + 1)))],
              snd acc @ snd (pairwise_max (working ! i) (working ! (i + 1))))
      else acc)"
  by pat_completeness auto
termination
  by (relation "measure (\<lambda>(working, i, acc). length working - i)") auto

text \<open>One round: the pairs, then the odd element passes through.\<close>

definition tournament_round :: "ciphertext list \<Rightarrow> ciphertext list \<times> event list" where
  "tournament_round working =
     (let r = pair_loop working 0 ([], [])
      in (if length working mod 2 = 1 then fst r @ [last working] else fst r, snd r))"

text \<open>
  The \<^verbatim>\<open>while\<close> loop: as long as more than one element is left, run a round, swap it
  in and print the number of survivors. The loop ends because a round on more than one
  element returns fewer elements.
\<close>

function tournament :: "ciphertext list \<Rightarrow> ciphertext list \<times> event list" where
  "tournament working =
     (if length working > 1
      then let r = tournament_round working;
               t = tournament (fst r)
           in (fst t, snd r @ [Round (length (fst r))] @ snd t)
      else (working, []))"
  by pat_completeness auto
termination
proof (relation "measure length")
  show "wf (measure length)" by simp
next
  fix working :: "ciphertext list" and r
  assume big: "1 < length working" and r: "r = tournament_round working"
  have len: "i \<le> length w \<Longrightarrow>
      length (fst (pair_loop w i acc)) = length (fst acc) + (length w - i) div 2" for w i acc
  proof (induction w i acc rule: pair_loop.induct)
    case (1 w i acc)
    show ?case
    proof (cases "i + 1 < length w")
      case True
      then have "length (fst (pair_loop w i acc)) =
          length (fst acc) + 1 + (length w - (i + 2)) div 2"
        using "1.IH" by simp
      also have "\<dots> = length (fst acc) + (length w - i) div 2"
        using True by arith
      finally show ?thesis .
    next
      case False
      with "1.prems" show ?thesis by (simp add: div_eq_0_iff)
    qed
  qed
  have "length (fst r) < length working"
    using big len [of 0 working "([], [])"]
    by (simp add: r tournament_round_def Let_def) arith
  then show "(fst r, working) \<in> measure length" by simp
qed

text \<open>The outcome of a run that reaches \<^verbatim>\<open>return 0\<close>: the values the program prints.\<close>

record report =
  plain_max :: real
  plain_argmax :: nat
  enc_max :: real
  is_unique_plaintext :: bool
  is_unique_encrypted :: bool
  accuracy_error :: real

text \<open>
  \<open>KeyGenFailed\<close> is the \<^verbatim>\<open>return 1\<close> after \<^verbatim>\<open>!kp0.good()\<close>. \<open>OutOfRange\<close> stands for
  the reads and writes of element 0 of an empty vector (\<^verbatim>\<open>working[0]\<close>,
  \<^verbatim>\<open>threshold_vec[0]\<close>, the first decrypted slot), which C++ leaves undefined.
\<close>

datatype error = KeyGenFailed | OutOfRange

text \<open>
  \<^verbatim>\<open>main\<close>. Its inputs are the configuration, the random generator and whether the
  library's key generation succeeds. It returns the exit status (\<open>Inl\<close> for a failure,
  \<open>Inr\<close> with the report for \<^verbatim>\<open>return 0\<close>) and the events of the run in order.
\<close>

definition main :: "params \<Rightarrow> rng \<Rightarrow> bool \<Rightarrow> (error + report) \<times> event list" where
  "main p rng keygen_good =
     (let gen = gen_db (DB_N p) (DIM p) rng;
          db = fst gen;
          query = normalize_inplace (fst (random_vector (DIM p) (snd gen)));
          base = baseline (DB_N p) (DIM p) query db;
          setup = [GenCryptoContext (MULT_DEPTH p) (SCALE_BITS p) (BATCH_SIZE p), KeyGen]
      in if \<not> keygen_good then (Inl KeyGenFailed, setup)
         else
           let keys = [EvalMultKeyGen, EvalAtIndexKeyGen [1, 2, 4, 8, 16, 32, 64]];
               enc_db = map Encrypt db;
               enc_query = Encrypt query;
               sims = similarities (BATCH_SIZE p) enc_query enc_db;
               tour = tournament (fst sims);
               pre = setup @ keys @ map Op enc_db @ [Op enc_query] @ snd sims @ snd tour
           in case fst tour of
                [] \<Rightarrow> (Inl OutOfRange, pre)
              | enc_maxSim # _ \<Rightarrow>
                  if DIM p = 0 then (Inl OutOfRange, pre)
                  else
                    let threshold_vec = list_update (replicate (DIM p) 0) 0 (SIMILARITY_THRESHOLD p);
                        enc_threshold = Encrypt threshold_vec;
                        evs = pre @ [Op enc_threshold, Decrypt enc_maxSim]
                    in (case plain enc_maxSim of
                         [] \<Rightarrow> (Inl OutOfRange, evs)
                       | m # _ \<Rightarrow>
                           (Inr \<lparr>plain_max = fst base, plain_argmax = snd base, enc_max = m,
                                 is_unique_plaintext = (fst base < SIMILARITY_THRESHOLD p),
                                 is_unique_encrypted = (m < SIMILARITY_THRESHOLD p),
                                 accuracy_error = abs (fst base - m)\<rparr>, evs)))"


text \<open>The ciphertexts returned by the library during a run, and those handed to decryption.\<close>

fun ops :: "event list \<Rightarrow> ciphertext list" where
  "ops [] = []"
| "ops (Op c # es) = c # ops es"
| "ops (e # es) = ops es"

fun decrypts :: "event list \<Rightarrow> ciphertext list" where
  "decrypts [] = []"
| "decrypts (Decrypt c # es) = c # decrypts es"
| "decrypts (e # es) = decrypts es"

text \<open>
  Names for the values of three local variables of \<^verbatim>\<open>main\<close>: the normalised database,
  the normalised query and the encrypted similarities \<^verbatim>\<open>enc_sims\<close>.
\<close>

definition database :: "params \<Rightarrow> rng \<Rightarrow> vec list" where
  "database p rng = fst (gen_db (DB_N p) (DIM p) rng)"

definition query_vector :: "params \<Rightarrow> rng \<Rightarrow> vec" where
  "query_vector p rng =
     normalize_inplace (fst (random_vector (DIM p) (snd (gen_db (DB_N p) (DIM p) rng))))"

definition enc_sims :: "params \<Rightarrow> rng \<Rightarrow> ciphertext list" where
  "enc_sims p rng =
     fst (similarities (BATCH_SIZE p) (Encrypt (query_vector p rng)) (map Encrypt (database p rng)))"

text \<open>
  A small configuration for concrete runs: two database vectors of dimension two, the
  other constants as in the source. A generator is given by the list of its first draws.
\<close>

definition small_params :: params where
  "small_params = demo_params\<lparr>DB_N := 2, DIM := 2\<rparr>"

definition draws :: "real list \<Rightarrow> rng" where
  "draws xs = ((\<lambda>i. if i < length xs then xs ! i else 0), 0)"

text \<open>The events of the homomorphic computation proper: a ciphertext returned, a line printed.\<close>

fun computing :: "event \<Rightarrow> bool" where
  "computing (Op c) = True"
| "computing (Round n) = True"
| "computing e = False"

declare pair_loop.simps [simp del] tournament.simps [simp del]

section \<open>The rounds of the tournament\<close>

lemma pair_loop_acc:
  "pair_loop w i acc =
     (fst acc @ fst (pair_loop (drop i w) 0 ([], [])),
      snd acc @ snd (pair_loop (drop i w) 0 ([], [])))"
proof (induction "length w - i" arbitrary: w i acc rule: less_induct)
  case less
  show ?case
  proof (cases "i + 1 < length w")
    case True
    define a where "a = w ! i"
    define b where "b = w ! (i + 1)"
    define r where "r = drop (i + 2) w"
    have dr: "drop i w = a # b # r"
      using True by (simp add: a_def b_def r_def Cons_nth_drop_Suc)
    have m: "length (a # b # r) - 2 < length w - i" "length w - (i + 2) < length w - i"
      using True by (simp_all add: r_def)
    have r2: "drop 2 (a # b # r) = r"
      by (simp add: numeral_2_eq_2)
    have "pair_loop w i acc =
        pair_loop w (i + 2) (fst acc @ [fst (pairwise_max a b)], snd acc @ snd (pairwise_max a b))"
      using True by (subst pair_loop.simps) (simp add: a_def b_def)
    also have "\<dots> = ((fst acc @ [fst (pairwise_max a b)]) @ fst (pair_loop r 0 ([], [])),
        (snd acc @ snd (pairwise_max a b)) @ snd (pair_loop r 0 ([], [])))"
      by (subst less.hyps [OF m(2)]) (simp add: r_def)
    finally have lhs: "pair_loop w i acc =
        ((fst acc @ [fst (pairwise_max a b)]) @ fst (pair_loop r 0 ([], [])),
         (snd acc @ snd (pairwise_max a b)) @ snd (pair_loop r 0 ([], [])))" .
    have "pair_loop (a # b # r) 0 ([], []) =
        pair_loop (a # b # r) 2 ([fst (pairwise_max a b)], snd (pairwise_max a b))"
      by (subst pair_loop.simps) (simp add: numeral_2_eq_2)
    also have "\<dots> = ([fst (pairwise_max a b)] @ fst (pair_loop r 0 ([], [])),
        snd (pairwise_max a b) @ snd (pair_loop r 0 ([], [])))"
      using less.hyps [OF m(1), of "([fst (pairwise_max a b)], snd (pairwise_max a b))"]
      by (simp only: r2 fst_conv snd_conv)
    finally show ?thesis
      by (simp add: lhs dr)
  next
    case False
    then have "\<not> 0 + 1 < length (drop i w)" by simp
    then have "pair_loop (drop i w) 0 ([], []) = ([], [])"
      by (subst pair_loop.simps) (simp only: if_False)
    moreover have "pair_loop w i acc = acc"
      using False by (subst pair_loop.simps) simp
    ultimately show ?thesis by simp
  qed
qed

lemma tournament_round_Nil: "tournament_round [] = ([], [])"
  by (simp add: tournament_round_def pair_loop.simps)

lemma tournament_round_single: "tournament_round [a] = ([a], [])"
  by (simp add: tournament_round_def pair_loop.simps)

lemma tournament_round_Cons2:
  "tournament_round (a # b # rest) =
     (EvalAdd a b # fst (tournament_round rest),
      Op (EvalAdd a b) # Op (EvalSub a b) # snd (tournament_round rest))"
proof -
  have "pair_loop (a # b # rest) 0 ([], []) =
      pair_loop (a # b # rest) 2 ([fst (pairwise_max a b)], snd (pairwise_max a b))"
    by (subst pair_loop.simps) (simp add: numeral_2_eq_2)
  also have "\<dots> = ([fst (pairwise_max a b)] @ fst (pair_loop rest 0 ([], [])),
      snd (pairwise_max a b) @ snd (pair_loop rest 0 ([], [])))"
    by (subst pair_loop_acc) (simp add: numeral_2_eq_2)
  finally have pl: "pair_loop (a # b # rest) 0 ([], []) =
      ([fst (pairwise_max a b)] @ fst (pair_loop rest 0 ([], [])),
       snd (pairwise_max a b) @ snd (pair_loop rest 0 ([], [])))" .
  have par: "length (a # b # rest) mod 2 = length rest mod 2" by simp
  have lst: "length rest mod 2 = 1 \<Longrightarrow> last (a # b # rest) = last rest"
    by (cases rest) auto
  show ?thesis
    by (simp add: tournament_round_def Let_def pl par lst pairwise_max_def del: last.simps)
qed

lemmas tournament_round_simps = tournament_round_Nil tournament_round_single tournament_round_Cons2

lemma length_tournament_round: "length (fst (tournament_round w)) = (length w + 1) div 2"
  by (induction w rule: induct_list012) (simp_all add: tournament_round_simps)

lemma tournament_small: "length w \<le> 1 \<Longrightarrow> tournament w = (w, [])"
  by (subst tournament.simps) simp

lemma tournament_step:
  "1 < length w \<Longrightarrow>
   tournament w =
     (fst (tournament (fst (tournament_round w))),
      snd (tournament_round w) @ [Round (length (fst (tournament_round w)))] @
        snd (tournament (fst (tournament_round w))))"
  by (subst tournament.simps) (simp add: Let_def)



lemma tournament_final_length: "w \<noteq> [] \<Longrightarrow> length (fst (tournament w)) = 1"
proof (induction "length w" arbitrary: w rule: less_induct)
  case less
  show ?case
  proof (cases "1 < length w")
    case True
    let ?n = "fst (tournament_round w)"
    have "length ?n < length w" "?n \<noteq> []"
      using True by (simp_all add: length_tournament_round flip: length_greater_0_conv)
    then have "length (fst (tournament ?n)) = 1"
      using less.hyps by blast
    then show ?thesis
      by (simp add: tournament_step [OF True])
  next
    case False
    with less.prems have "length w = 1"
      by (cases w) auto
    then show ?thesis
      by (simp add: tournament_small)
  qed
qed





section \<open>What the tournament computes\<close>

lemma tournament_round_sum:
  assumes "\<forall>c \<in> set w. length (plain c) = D"
  shows "(\<forall>c \<in> set (fst (tournament_round w)). length (plain c) = D) \<and>
         (\<forall>j < D. sum_list (map (\<lambda>c. plain c ! j) (fst (tournament_round w))) =
                   sum_list (map (\<lambda>c. plain c ! j) w))"
  using assms
proof (induction w rule: induct_list012)
  case (3 a b rest)
  then have ab: "length (plain a) = D" "length (plain b) = D"
    and ih: "\<forall>c \<in> set (fst (tournament_round rest)). length (plain c) = D"
      "\<forall>j < D. sum_list (map (\<lambda>c. plain c ! j) (fst (tournament_round rest))) =
               sum_list (map (\<lambda>c. plain c ! j) rest)"
    by simp_all
  show ?case
    using ab ih by (simp add: tournament_round_Cons2)
qed (simp_all add: tournament_round_simps)

lemma tournament_sum:
  assumes "\<forall>c \<in> set w. length (plain c) = D"
  shows "(\<forall>c \<in> set (fst (tournament w)). length (plain c) = D) \<and>
         (\<forall>j < D. sum_list (map (\<lambda>c. plain c ! j) (fst (tournament w))) =
                   sum_list (map (\<lambda>c. plain c ! j) w))"
  using assms
proof (induction "length w" arbitrary: w rule: less_induct)
  case less
  show ?case
  proof (cases "1 < length w")
    case True
    let ?n = "fst (tournament_round w)"
    have "length ?n < length w"
      using True by (simp add: length_tournament_round)
    moreover note r = tournament_round_sum [OF less.prems]
    ultimately have "(\<forall>c \<in> set (fst (tournament ?n)). length (plain c) = D) \<and>
         (\<forall>j < D. sum_list (map (\<lambda>c. plain c ! j) (fst (tournament ?n))) =
                   sum_list (map (\<lambda>c. plain c ! j) ?n))"
      using less.hyps by blast
    with r show ?thesis
      by (simp add: tournament_step [OF True])
  next
    case False
    then show ?thesis
      using less.prems by (simp add: tournament_small)
  qed
qed

text \<open>
  C1. The combiner of two scores is meant to be
  \<open>secureMax(A, B) = (A + B + approxAbs(A - B)) / 2\<close> and never the plain sum. The lambda
  \<^verbatim>\<open>pairwise_max\<close> computes the difference and drops it: for every pair it returns
  \<open>EvalAdd A B\<close>, and on the scores 0.3 and 0.2 that is the ciphertext of their sum 0.5,
  where the formula (with the exact absolute value) gives the maximum 0.3.
\<close>

theorem pairwise_max_returns_sum:
  "fst (pairwise_max A B) = EvalAdd A B \<and>
   plain (fst (pairwise_max (Encrypt [3 / 10]) (Encrypt [1 / 5]))) = [1 / 2] \<and>
   (3 / 10 + 1 / 5 + abs (3 / 10 - 1 / 5)) / 2 = (3 / 10 :: real)"
  by (simp add: pairwise_max_def Let_def)

text \<open>
  C2. For every non-empty sequence of encrypted scores with the same number of slots, the
  tournament as implemented ends with one ciphertext, and each of its slots holds the sum
  of that slot over all inputs (with \<open>EvalAdd\<close> read as addition); a single input is
  returned unchanged.
\<close>

theorem tournament_returns_sum:
  assumes "xs \<noteq> []" and "\<forall>c \<in> set xs. length (plain c) = D"
  shows "\<exists>r. fst (tournament xs) = [r] \<and> length (plain r) = D \<and>
           (\<forall>j < D. plain r ! j = sum_list (map (\<lambda>c. plain c ! j) xs)) \<and>
           (length xs = 1 \<longrightarrow> r = hd xs)"
proof -
  have "length (fst (tournament xs)) = 1"
    using assms(1) by (rule tournament_final_length)
  then obtain r where r: "fst (tournament xs) = [r]"
    by (cases "fst (tournament xs)") auto
  have "length xs = 1 \<longrightarrow> r = hd xs"
    using r by (auto simp: tournament_small)
  with tournament_sum [OF assms(2)] r show ?thesis
    by simp
qed

theorem tournament_returns_sum_witness:
  "[Encrypt [1], Encrypt [2], Encrypt [4]] \<noteq> [] \<and>
   map (\<lambda>c. length (plain c)) [Encrypt [1], Encrypt [2], Encrypt [4]] = [1, 1, 1] \<and>
   (\<exists>r. fst (tournament [Encrypt [1], Encrypt [2], Encrypt [4]]) = [r] \<and> plain r = [7]) \<and>
   length [Encrypt [5]] = 1 \<and> fst (tournament [Encrypt [5]]) = [Encrypt [5]]"
proof -
  have h: "\<forall>c \<in> set [Encrypt [1], Encrypt [2], Encrypt [4]]. length (plain c) = 1"
    by simp
  obtain r where r: "fst (tournament [Encrypt [1], Encrypt [2], Encrypt [4]]) = [r]"
      "length (plain r) = 1" "plain r ! 0 = 7"
    using tournament_returns_sum [OF _ h] by auto
  then have "plain r = [7]"
    by (cases "plain r") auto
  moreover have "fst (tournament [Encrypt [5]]) = [Encrypt [5]]"
    using tournament_returns_sum [of "[Encrypt [5]]" 1] by auto
  ultimately show ?thesis
    using r(1) by simp
qed



section \<open>The events of a run\<close>

lemma ops_append: "ops (a @ b) = ops a @ ops b"
  by (induction a rule: ops.induct) simp_all

lemma ops_map_Op: "ops (map Op cs) = cs"
  by (induction cs) simp_all

lemma decrypts_append: "decrypts (a @ b) = decrypts a @ decrypts b"
  by (induction a rule: decrypts.induct) simp_all

lemma computing_quiet:
  "\<forall>e \<in> set es. computing e \<Longrightarrow> decrypts es = [] \<and> count_list es KeyGen = 0"
proof (induction es)
  case (Cons e es)
  then show ?case by (cases e) simp_all
qed simp

lemma computing_map_Op: "\<forall>e \<in> set (map Op cs). computing e"
  by simp

lemma computing_tournament_round: "\<forall>e \<in> set (snd (tournament_round w)). computing e"
  by (induction w rule: induct_list012) (simp_all add: tournament_round_simps)

lemma computing_tournament: "\<forall>e \<in> set (snd (tournament w)). computing e"
proof (induction "length w" arbitrary: w rule: less_induct)
  case less
  show ?case
  proof (cases "1 < length w")
    case True
    have "length (fst (tournament_round w)) < length w"
      using True by (simp add: length_tournament_round)
    then have "\<forall>e \<in> set (snd (tournament (fst (tournament_round w)))). computing e"
      using less.hyps by blast
    then show ?thesis
      using computing_tournament_round [of w] by (auto simp: tournament_step [OF True])
  next
    case False
    then show ?thesis by (simp add: tournament_small)
  qed
qed

lemma similarities_fst:
  "fst (similarities b q cs) = map (\<lambda>c. EvalSum (EvalMult q c) b) cs"
  by (induction cs) (simp_all add: similarity_def Let_def case_prod_beta)

lemma similarities_snd:
  "snd (similarities b q cs) =
     concat (map (\<lambda>c. [Op (EvalMult q c), Op (EvalSum (EvalMult q c) b)]) cs)"
  by (induction cs) (simp_all add: similarity_def Let_def case_prod_beta)

lemma computing_similarities: "\<forall>e \<in> set (snd (similarities b q cs)). computing e"
  by (auto simp: similarities_snd)

section \<open>Vectors and slots\<close>

lemma length_normalize_inplace: "length (normalize_inplace v) = length v"
  by (simp add: normalize_inplace_def Let_def)

lemma length_random_vector: "length (fst (random_vector d g)) = d"
  by (cases g) (simp add: random_vector_def)

lemma gen_db_lengths:
  "length (fst (gen_db n d g)) = n \<and> (\<forall>v \<in> set (fst (gen_db n d g)). length v = d)"
proof (induction n arbitrary: g)
  case (Suc n)
  obtain v g' where v: "random_vector d g = (v, g')"
    by (cases "random_vector d g")
  then have "length v = d"
    using length_random_vector [of d g] by simp
  with Suc [of g'] v show ?case
    by (simp add: length_normalize_inplace case_prod_beta)
qed simp

lemma length_database: "length (database p rng) = DB_N p"
  by (simp add: database_def gen_db_lengths)

lemma length_database_item: "v \<in> set (database p rng) \<Longrightarrow> length v = DIM p"
  using gen_db_lengths [of "DB_N p" "DIM p" rng] by (simp add: database_def)

lemma length_query_vector: "length (query_vector p rng) = DIM p"
  by (simp add: query_vector_def length_normalize_inplace length_random_vector)

lemma enc_sims_eq:
  "enc_sims p rng =
     map (\<lambda>v. EvalSum (EvalMult (Encrypt (query_vector p rng)) (Encrypt v)) (DIM p)) (database p rng)"
  by (simp add: enc_sims_def similarities_fst BATCH_SIZE_def comp_def)

lemma foldl_add_sum_list:
  "foldl (\<lambda>s k. s + f k) a ks = a + sum_list (map f ks)" for a :: real
  by (induction ks arbitrary: a) simp_all

lemma map2_mult_nth:
  "length q = D \<Longrightarrow> length v = D \<Longrightarrow> map2 (*) q v = map (\<lambda>k. q ! k * v ! k) [0..<D]"
  for q v :: "real list"
  by (rule nth_equalityI) simp_all

lemma dot_product_sum_list:
  "length q = D \<Longrightarrow> length v = D \<Longrightarrow> dot_product D q v = sum_list (map2 (*) q v)"
  by (simp add: dot_product_def foldl_add_sum_list map2_mult_nth)

lemma sum_list_rotate: "sum_list (rotate j xs) = sum_list xs" for xs :: "real list"
proof -
  have "sum_list (drop k xs @ take k xs) = sum_list (take k xs @ drop k xs)" for k
    by (simp only: sum_list_append add.commute)
  then show ?thesis
    by (simp add: rotate_drop_take del: sum_list_append)
qed

lemma plain_EvalSum_full:
  "length (plain c) = D \<Longrightarrow> plain (EvalSum c D) = replicate D (sum_list (plain c))"
  by (rule nth_equalityI) (simp_all add: sum_list_rotate)

lemma plain_similarity:
  assumes "length q = D" "length v = D"
  shows "plain (EvalSum (EvalMult (Encrypt q) (Encrypt v)) D) = replicate D (dot_product D q v)"
proof -
  have "length (plain (EvalMult (Encrypt q) (Encrypt v))) = D"
    using assms by simp
  then show ?thesis
    using assms by (simp add: plain_EvalSum_full dot_product_sum_list del: plain.simps(3))
qed

section \<open>The run as a whole\<close>

lemmas quiet_map_Op = computing_quiet [OF computing_map_Op]
lemmas quiet_similarities = computing_quiet [OF computing_similarities]
lemmas quiet_tournament = computing_quiet [OF computing_tournament]

lemma plain_enc_sims: "c \<in> set (enc_sims p rng) \<Longrightarrow> length (plain c) = DIM p"
  by (auto simp: enc_sims_eq plain_similarity length_query_vector length_database_item
      simp del: plain.simps)

lemma tournament_enc_sims:
  assumes "0 < DB_N p"
  obtains m where "fst (tournament (enc_sims p rng)) = [m]" "length (plain m) = DIM p"
proof -
  have "enc_sims p rng \<noteq> []"
    using assms by (simp add: enc_sims_eq length_database flip: length_greater_0_conv)
  then have "length (fst (tournament (enc_sims p rng))) = 1"
    by (rule tournament_final_length)
  then obtain m where m: "fst (tournament (enc_sims p rng)) = [m]"
    by (cases "fst (tournament (enc_sims p rng))") auto
  have "\<forall>c \<in> set (enc_sims p rng). length (plain c) = DIM p"
    by (simp add: plain_enc_sims)
  from tournament_sum [OF this] m have "length (plain m) = DIM p"
    by simp
  with m that show ?thesis by blast
qed

lemma main_keygen_failed:
  "main p rng False =
     (Inl KeyGenFailed, [GenCryptoContext (MULT_DEPTH p) (SCALE_BITS p) (DIM p), KeyGen])"
  by (simp add: main_def Let_def BATCH_SIZE_def)

lemma main_good:
  assumes "0 < DIM p" and m: "fst (tournament (enc_sims p rng)) = [m]" and x: "plain m = x # xs"
  shows "main p rng True =
    (Inr \<lparr>plain_max = fst (baseline (DB_N p) (DIM p) (query_vector p rng) (database p rng)),
          plain_argmax = snd (baseline (DB_N p) (DIM p) (query_vector p rng) (database p rng)),
          enc_max = x,
          is_unique_plaintext =
            (fst (baseline (DB_N p) (DIM p) (query_vector p rng) (database p rng))
              < SIMILARITY_THRESHOLD p),
          is_unique_encrypted = (x < SIMILARITY_THRESHOLD p),
          accuracy_error =
            abs (fst (baseline (DB_N p) (DIM p) (query_vector p rng) (database p rng)) - x)\<rparr>,
     [GenCryptoContext (MULT_DEPTH p) (SCALE_BITS p) (DIM p), KeyGen,
      EvalMultKeyGen, EvalAtIndexKeyGen [1, 2, 4, 8, 16, 32, 64]] @
     map Op (map Encrypt (database p rng)) @ [Op (Encrypt (query_vector p rng))] @
     snd (similarities (DIM p) (Encrypt (query_vector p rng)) (map Encrypt (database p rng))) @
     snd (tournament (enc_sims p rng)) @
     [Op (Encrypt (list_update (replicate (DIM p) 0) 0 (SIMILARITY_THRESHOLD p))), Decrypt m])"
  using assms(1) x m [unfolded enc_sims_def database_def query_vector_def BATCH_SIZE_def]
  by (simp add: main_def Let_def enc_sims_def database_def query_vector_def BATCH_SIZE_def)


section \<open>Two concrete runs\<close>

lemma upt_0_2: "[0..<2] = [0, Suc 0]"
  by (simp add: numeral_2_eq_2)

lemma random_vector_2: "random_vector 2 (src, pos) = ([src pos, src (Suc pos)], (src, pos + 2))"
  by (simp add: random_vector_def numeral_2_eq_2 upt_rec)

lemma gen_db_2:
  "gen_db 2 2 (src, 0) =
     ([normalize_inplace [src 0, src 1], normalize_inplace [src 2, src 3]], (src, 4))"
  by (simp add: numeral_2_eq_2 random_vector_2 [unfolded numeral_2_eq_2] eval_nat_numeral)

lemma tournament_two:
  "tournament [a, b] = ([EvalAdd a b], [Op (EvalAdd a b), Op (EvalSub a b), Round 1])"
  by (simp add: tournament_step tournament_small tournament_round_simps)

lemma sqrt_25: "sqrt 25 = 5"
  using real_sqrt_abs [of 5] by simp

lemma normalize_10: "normalize_inplace [1, 0] = [1, 0]"
  by (simp add: normalize_inplace_def)

lemma normalize_01: "normalize_inplace [0, 1] = [0, 1]"
  by (simp add: normalize_inplace_def)

lemma normalize_00: "normalize_inplace [0, 0] = [0, 0]"
  by (simp add: normalize_inplace_def)

lemma normalize_34: "normalize_inplace [3, 4] = [3 / 5, 4 / 5]"
  by (simp add: normalize_inplace_def sqrt_25)

lemma replicate_2: "replicate 2 x = [x, x]"
  by (simp add: numeral_2_eq_2)

lemmas small_simps = replicate_2 draws_def gen_db_2 random_vector_2 Let_def BATCH_SIZE_def
  normalize_10 normalize_01 normalize_00 normalize_34 baseline_def dot_product_def upt_0_2
  similarity_def tournament_two

text \<open>The run on the database \<open>[1, 0]\<close>, \<open>[0, 1]\<close> and the query \<open>[3, 4]\<close>, normalised
  to \<open>[3/5, 4/5]\<close>: the similarities are \<open>3/5\<close> and \<open>4/5\<close>.\<close>

lemma main_small:
  assumes "DB_N p = 2" "DIM p = 2"
  shows "main p (draws [1, 0, 0, 1, 3, 4]) True =
    (Inr \<lparr>plain_max = 4 / 5, plain_argmax = 1, enc_max = 7 / 5,
          is_unique_plaintext = (4 / 5 < SIMILARITY_THRESHOLD p),
          is_unique_encrypted = (7 / 5 < SIMILARITY_THRESHOLD p),
          accuracy_error = 3 / 5\<rparr>,
     [GenCryptoContext (MULT_DEPTH p) (SCALE_BITS p) 2, KeyGen,
      EvalMultKeyGen, EvalAtIndexKeyGen [1, 2, 4, 8, 16, 32, 64],
      Op (Encrypt [1, 0]), Op (Encrypt [0, 1]), Op (Encrypt [3 / 5, 4 / 5]),
      Op (EvalMult (Encrypt [3 / 5, 4 / 5]) (Encrypt [1, 0])),
      Op (EvalSum (EvalMult (Encrypt [3 / 5, 4 / 5]) (Encrypt [1, 0])) 2),
      Op (EvalMult (Encrypt [3 / 5, 4 / 5]) (Encrypt [0, 1])),
      Op (EvalSum (EvalMult (Encrypt [3 / 5, 4 / 5]) (Encrypt [0, 1])) 2),
      Op (EvalAdd (EvalSum (EvalMult (Encrypt [3 / 5, 4 / 5]) (Encrypt [1, 0])) 2)
                  (EvalSum (EvalMult (Encrypt [3 / 5, 4 / 5]) (Encrypt [0, 1])) 2)),
      Op (EvalSub (EvalSum (EvalMult (Encrypt [3 / 5, 4 / 5]) (Encrypt [1, 0])) 2)
                  (EvalSum (EvalMult (Encrypt [3 / 5, 4 / 5]) (Encrypt [0, 1])) 2)),
      Round 1,
      Op (Encrypt [SIMILARITY_THRESHOLD p, 0]),
      Decrypt (EvalAdd (EvalSum (EvalMult (Encrypt [3 / 5, 4 / 5]) (Encrypt [1, 0])) 2)
                       (EvalSum (EvalMult (Encrypt [3 / 5, 4 / 5]) (Encrypt [0, 1])) 2))])"
  by (simp add: main_def assms small_simps)

lemma small_params_simps:
  "DB_N small_params = 2" "DIM small_params = 2" "MULT_DEPTH small_params = 10"
  "SCALE_BITS small_params = 40" "SIMILARITY_THRESHOLD small_params = 1 / 2"
  "NUM_PARTIES small_params = 1" "THRESHOLD_PARTIES small_params = 1"
  by (simp_all add: small_params_def demo_params_def)



section \<open>Facts about every run\<close>

lemma ops_similarities:
  "ops (snd (similarities b q cs)) =
     concat (map (\<lambda>c. [EvalMult q c, EvalSum (EvalMult q c) b]) cs)"
  by (induction cs) (simp_all add: similarity_def Let_def case_prod_beta)

lemma main_good_ex:
  assumes "0 < DB_N p" "0 < DIM p"
  obtains m x xs where "fst (tournament (enc_sims p rng)) = [m]" "plain m = x # xs"
proof -
  obtain m where m: "fst (tournament (enc_sims p rng)) = [m]" "length (plain m) = DIM p"
    using tournament_enc_sims [OF assms(1)] by blast
  then obtain x xs where "plain m = x # xs"
    using assms(2) by (cases "plain m") auto
  with m(1) that show ?thesis by blast
qed

lemma main_succeeds:
  assumes "0 < DB_N p" "0 < DIM p"
  shows "\<not> isl (fst (main p rng True))"
proof -
  obtain m x xs where m: "fst (tournament (enc_sims p rng)) = [m]" and x: "plain m = x # xs"
    using main_good_ex [OF assms] by blast
  show ?thesis
    by (simp add: main_good [OF assms(2) m x])
qed


lemma main_ops_eq:
  assumes "0 < DB_N p" "0 < DIM p"
  shows "ops (snd (main p rng True)) =
       map Encrypt (database p rng) @ [Encrypt (query_vector p rng)] @
       concat (map (\<lambda>c. [EvalMult (Encrypt (query_vector p rng)) c,
                          EvalSum (EvalMult (Encrypt (query_vector p rng)) c) (DIM p)])
                 (map Encrypt (database p rng))) @
       ops (snd (tournament (enc_sims p rng))) @
       [Encrypt (list_update (replicate (DIM p) 0) 0 (SIMILARITY_THRESHOLD p))]"
proof -
  obtain m x xs where m: "fst (tournament (enc_sims p rng)) = [m]" and x: "plain m = x # xs"
    using main_good_ex [OF assms] by blast
  show ?thesis
    by (simp add: main_good [OF assms(2) m x] ops_append ops_map_Op ops_similarities
        del: map_map)
qed

lemma main_ops:
  assumes "0 < DB_N p" "0 < DIM p" "v \<in> set (database p rng)"
  shows "Encrypt v \<in> set (ops (snd (main p rng True)))"
    and "EvalSum (EvalMult (Encrypt (query_vector p rng)) (Encrypt v)) (DIM p)
           \<in> set (ops (snd (main p rng True)))"
  using assms(3) by (auto simp: main_ops_eq [OF assms(1,2)])


lemma foldl_squares_zero:
  "\<forall>x \<in> set v. x = 0 \<Longrightarrow> foldl (\<lambda>s x. s + x * x) a v = a" for a :: real
  by (induction v arbitrary: a) simp_all

lemma normalize_inplace_zero: "\<forall>x \<in> set v. x = 0 \<Longrightarrow> normalize_inplace v = v"
  by (simp add: normalize_inplace_def foldl_squares_zero)

lemma gen_db_nth:
  "i < n \<Longrightarrow>
   fst (gen_db n d (src, pos)) ! i = normalize_inplace (map src [pos + i * d..<pos + i * d + d])"
proof (induction n arbitrary: pos i)
  case (Suc n)
  show ?case
  proof (cases i)
    case 0
    then show ?thesis
      by (simp add: random_vector_def case_prod_beta)
  next
    case (Suc j)
    with Suc.prems have "j < n" by simp
    from Suc.IH [OF this, of "pos + d"] show ?thesis
      by (simp add: random_vector_def case_prod_beta Suc add.assoc add.left_commute add.commute)
  qed
qed simp

lemma main_quiet_parts:
  "decrypts (map Op (map Encrypt db)) = []"
  "count_list (map Op (map Encrypt db)) KeyGen = 0"
  using quiet_map_Op [of "map Encrypt db"] by simp_all

lemma main_events_True:
  "count_list (snd (main p rng True)) KeyGen = 1 \<and>
   length (decrypts (snd (main p rng True))) \<le> 1 \<and>
   (\<forall>r. fst (main p rng True) = Inr r \<longrightarrow>
      (\<exists>m. decrypts (snd (main p rng True)) = [m] \<and> plain m \<noteq> [] \<and> enc_max r = hd (plain m)))"
  by (simp add: main_def Let_def decrypts_append main_quiet_parts quiet_similarities
      quiet_tournament split: list.split del: map_map)

section \<open>The claims\<close>



text \<open>
  C5. The decision step is meant to subtract the encrypted threshold from the encrypted
  maximum before anything is decrypted. In the run on two database vectors the encrypted
  threshold \<open>Encrypt [1/2, 0]\<close> is produced and then never used: the next and last call is the
  decryption of the tournament's result itself, and the only subtraction of the run is the
  one inside \<^verbatim>\<open>pairwise_max\<close>.
\<close>

theorem threshold_ciphertext_unused:
  "snd (main small_params (draws [1, 0, 0, 1, 3, 4]) True) =
     [GenCryptoContext 10 40 2, KeyGen,
      EvalMultKeyGen, EvalAtIndexKeyGen [1, 2, 4, 8, 16, 32, 64],
      Op (Encrypt [1, 0]), Op (Encrypt [0, 1]), Op (Encrypt [3 / 5, 4 / 5]),
      Op (EvalMult (Encrypt [3 / 5, 4 / 5]) (Encrypt [1, 0])),
      Op (EvalSum (EvalMult (Encrypt [3 / 5, 4 / 5]) (Encrypt [1, 0])) 2),
      Op (EvalMult (Encrypt [3 / 5, 4 / 5]) (Encrypt [0, 1])),
      Op (EvalSum (EvalMult (Encrypt [3 / 5, 4 / 5]) (Encrypt [0, 1])) 2),
      Op (EvalAdd (EvalSum (EvalMult (Encrypt [3 / 5, 4 / 5]) (Encrypt [1, 0])) 2)
                  (EvalSum (EvalMult (Encrypt [3 / 5, 4 / 5]) (Encrypt [0, 1])) 2)),
      Op (EvalSub (EvalSum (EvalMult (Encrypt [3 / 5, 4 / 5]) (Encrypt [1, 0])) 2)
                  (EvalSum (EvalMult (Encrypt [3 / 5, 4 / 5]) (Encrypt [0, 1])) 2)),
      Round 1,
      Op (Encrypt [1 / 2, 0]),
      Decrypt (EvalAdd (EvalSum (EvalMult (Encrypt [3 / 5, 4 / 5]) (Encrypt [1, 0])) 2)
                       (EvalSum (EvalMult (Encrypt [3 / 5, 4 / 5]) (Encrypt [0, 1])) 2))]"
  by (simp add: main_small small_params_simps)







text \<open>
  C9, as stated: a zero-norm vector is a validation error for its item. It is not:
  \<^verbatim>\<open>normalize_inplace\<close> returns the zero vector as it is, and a run whose first
  database vector is drawn as \<open>[0, 0]\<close> completes, having encrypted that vector and computed
  its similarity like any other.
\<close>

theorem zero_norm_accepted_counterexample:
  "normalize_inplace [0, 0] = [0, 0] \<and>
   fst (main small_params (draws [0, 0, 0, 1, 3, 4]) True) =
     Inr \<lparr>plain_max = 4 / 5, plain_argmax = 1, enc_max = 4 / 5, is_unique_plaintext = False,
          is_unique_encrypted = False, accuracy_error = 0\<rparr> \<and>
   Op (Encrypt [0, 0]) \<in> set (snd (main small_params (draws [0, 0, 0, 1, 3, 4]) True)) \<and>
   Op (EvalSum (EvalMult (Encrypt [3 / 5, 4 / 5]) (Encrypt [0, 0])) 2)
     \<in> set (snd (main small_params (draws [0, 0, 0, 1, 3, 4]) True))"
  by (simp add: main_def small_params_simps small_simps)

text \<open>
  C9, amended: a zero-norm vector is not an error. \<^verbatim>\<open>normalize_inplace\<close> leaves the
  zero vector unchanged; when the draws of database item \<open>i\<close> are all zero the item is the
  zero vector, it is encrypted, its similarity with the query is computed, and the run
  completes.
\<close>

theorem zero_norm_passes_through:
  assumes "i < DB_N p" and "0 < DIM p" and "\<forall>k < DIM p. src (pos + i * DIM p + k) = 0"
  shows "normalize_inplace (replicate (DIM p) 0) = replicate (DIM p) 0 \<and>
         database p (src, pos) ! i = replicate (DIM p) 0 \<and>
         \<not> isl (fst (main p (src, pos) True)) \<and>
         Encrypt (replicate (DIM p) 0) \<in> set (ops (snd (main p (src, pos) True))) \<and>
         EvalSum (EvalMult (Encrypt (query_vector p (src, pos))) (Encrypt (replicate (DIM p) 0)))
             (DIM p) \<in> set (ops (snd (main p (src, pos) True)))"
proof -
  have z: "normalize_inplace (replicate (DIM p) 0) = replicate (DIM p) 0"
    by (simp add: normalize_inplace_zero)
  have "map src [pos + i * DIM p..<pos + i * DIM p + DIM p] = replicate (DIM p) 0"
    using assms(3) by (intro nth_equalityI) (simp_all add: add.assoc)
  then have item: "database p (src, pos) ! i = replicate (DIM p) 0"
    using assms(1) by (simp add: database_def gen_db_nth z)
  have pos: "0 < DB_N p"
    using assms(1) by simp
  have "database p (src, pos) ! i \<in> set (database p (src, pos))"
    using assms(1) by (simp add: length_database)
  then have mem: "replicate (DIM p) 0 \<in> set (database p (src, pos))"
    by (simp add: item)
  have "\<not> isl (fst (main p (src, pos) True))"
    by (rule main_succeeds [OF pos assms(2)])
  with z item main_ops [OF pos assms(2) mem] show ?thesis
    by simp
qed

theorem zero_norm_passes_through_witness:
  "0 < DB_N small_params \<and> 0 < DIM small_params \<and>
   database small_params (draws [0, 0, 0, 1, 3, 4]) ! 0 = [0, 0] \<and>
   \<not> isl (fst (main small_params (draws [0, 0, 0, 1, 3, 4]) True)) \<and>
   Encrypt [0, 0] \<in> set (ops (snd (main small_params (draws [0, 0, 0, 1, 3, 4]) True)))"
proof -
  have h: "0 < DB_N small_params" "0 < DIM small_params"
    by (simp_all add: small_params_simps)
  have z: "\<forall>k < DIM small_params.
      (\<lambda>i. if i < length [0, 0, 0, 1, 3, 4 :: real] then [0, 0, 0, 1, 3, 4] ! i else 0)
        (0 + 0 * DIM small_params + k) = 0"
    by (auto simp: small_params_simps less_2_cases_iff)
  from zero_norm_passes_through [OF h z] h show ?thesis
    by (simp add: draws_def small_params_simps replicate_2)
qed

text \<open>
  C10, as stated: decryption needs the shares of at least \<open>t\<close> of \<open>n\<close> parties and fails
  with fewer. It does not: with \<open>t = n = 2\<close> configured the run still generates one key
  pair, decrypts with that one key and reports the decrypted value.
\<close>

theorem single_key_decrypts_counterexample:
  "THRESHOLD_PARTIES (small_params\<lparr>NUM_PARTIES := 2, THRESHOLD_PARTIES := 2\<rparr>) = 2 \<and>
   count_list (snd (main (small_params\<lparr>NUM_PARTIES := 2, THRESHOLD_PARTIES := 2\<rparr>)
     (draws [1, 0, 0, 1, 3, 4]) True)) KeyGen = 1 \<and>
   decrypts (snd (main (small_params\<lparr>NUM_PARTIES := 2, THRESHOLD_PARTIES := 2\<rparr>)
     (draws [1, 0, 0, 1, 3, 4]) True)) =
     [EvalAdd (EvalSum (EvalMult (Encrypt [3 / 5, 4 / 5]) (Encrypt [1, 0])) 2)
              (EvalSum (EvalMult (Encrypt [3 / 5, 4 / 5]) (Encrypt [0, 1])) 2)] \<and>
   fst (main (small_params\<lparr>NUM_PARTIES := 2, THRESHOLD_PARTIES := 2\<rparr>)
     (draws [1, 0, 0, 1, 3, 4]) True) =
     Inr \<lparr>plain_max = 4 / 5, plain_argmax = 1, enc_max = 7 / 5, is_unique_plaintext = False,
          is_unique_encrypted = False, accuracy_error = 3 / 5\<rparr>"
  by (simp add: main_small small_params_simps)

text \<open>
  C10, amended: decryption is one ordinary single-key call. A run generates one key pair
  and hands at most one ciphertext to \<^verbatim>\<open>Decrypt\<close> with that key; there are no shares
  and no quorum, and the settings \<^verbatim>\<open>NUM_PARTIES\<close> and \<^verbatim>\<open>THRESHOLD_PARTIES\<close> do not
  influence the run. A run that reports has decrypted exactly one ciphertext and reports
  its first slot.
\<close>

theorem decryption_is_single_key:
  "main (p\<lparr>NUM_PARTIES := n, THRESHOLD_PARTIES := t\<rparr>) rng keygen_good = main p rng keygen_good \<and>
   count_list (snd (main p rng keygen_good)) KeyGen = 1 \<and>
   length (decrypts (snd (main p rng keygen_good))) \<le> 1 \<and>
   (\<forall>r. fst (main p rng keygen_good) = Inr r \<longrightarrow>
      (\<exists>m. decrypts (snd (main p rng keygen_good)) = [m] \<and> plain m \<noteq> [] \<and>
           enc_max r = hd (plain m)))"
proof -
  have "main (p\<lparr>NUM_PARTIES := n, THRESHOLD_PARTIES := t\<rparr>) rng keygen_good = main p rng keygen_good"
    by (simp add: main_def Let_def BATCH_SIZE_def split: list.split)
  then show ?thesis
    using main_events_True [of p rng] by (cases keygen_good) (simp_all add: main_keygen_failed)
qed

theorem decryption_is_single_key_witness:
  "fst (main small_params (draws [1, 0, 0, 1, 3, 4]) True) =
     Inr \<lparr>plain_max = 4 / 5, plain_argmax = 1, enc_max = 7 / 5, is_unique_plaintext = False,
          is_unique_encrypted = False, accuracy_error = 3 / 5\<rparr> \<and>
   (\<exists>m. decrypts (snd (main small_params (draws [1, 0, 0, 1, 3, 4]) True)) = [m] \<and>
        hd (plain m) = 7 / 5)"
proof -
  have run: "fst (main small_params (draws [1, 0, 0, 1, 3, 4]) True) =
     Inr \<lparr>plain_max = 4 / 5, plain_argmax = 1, enc_max = 7 / 5, is_unique_plaintext = False,
          is_unique_encrypted = False, accuracy_error = 3 / 5\<rparr>"
    by (simp add: main_small small_params_simps)
  from decryption_is_single_key [where p = small_params and n = 1 and t = 1
      and rng = "draws [1, 0, 0, 1, 3, 4]" and keygen_good = True]
  have "\<exists>m. decrypts (snd (main small_params (draws [1, 0, 0, 1, 3, 4]) True)) = [m] \<and>
        plain m \<noteq> [] \<and> 7 / 5 = hd (plain m)"
    unfolding run by simp
  with run show ?thesis
    by auto
qed

end
